theory Spec2Isabelle
  imports Main "HOL-Library.Multiset"
begin

section \<open>Cards, hands and the deck\<close>

text \<open>
  The program is a single Python module, \<^verbatim>\<open>blackjack.py\<close>. A card is the pair
  \<^verbatim>\<open>(rank, suit)\<close>. The only place that builds cards is \<^verbatim>\<open>get_deck\<close>:
  the rank is \<^verbatim>\<open>str(rank)\<close> for a number, or one of the letters
  \<^verbatim>\<open>'J'\<close>, \<^verbatim>\<open>'Q'\<close>, \<^verbatim>\<open>'K'\<close>, \<^verbatim>\<open>'A'\<close>; the suit is one of the four
  module constants. \<open>Num n\<close> stands for the string \<^verbatim>\<open>str(n)\<close>, so that
  \<^verbatim>\<open>int(rank)\<close> of the evaluator is \<open>n\<close> again.
\<close>

datatype rank = Num nat | Jack | Queen | King | Ace

datatype suit = HEARTS | DIAMONDS | SPADES | CLUBS

type_synonym card = "rank \<times> suit"

text \<open>
  The exceptions of Python that the modelled code can raise: \<^verbatim>\<open>list.pop\<close> on an
  empty list, \<^verbatim>\<open>input\<close> at the end of the input, \<^verbatim>\<open>sys.exit\<close>, and those
  of reading the save file.
\<close>

datatype error = IndexError | EOFError | SystemExit | JSONDecodeError | AttributeError | OSError

text \<open>
  \<^verbatim>\<open>get_deck\<close> before the shuffle: for each suit, the numbers of
  \<^verbatim>\<open>range(2, 11)\<close> and then the four letters. \<^verbatim>\<open>random.shuffle\<close> permutes this
  list; the functions below take the shuffled deck as an argument.
\<close>

definition suit_cards :: "suit \<Rightarrow> card list" where
  "suit_cards s = map (\<lambda>n. (Num n, s)) [2..<11] @ map (\<lambda>r. (r, s)) [Jack, Queen, King, Ace]"

definition unshuffled_deck :: "card list" where
  "unshuffled_deck = concat (map suit_cards [HEARTS, DIAMONDS, SPADES, CLUBS])"

text \<open>
  A Python list is a HOL list in the same order; \<^verbatim>\<open>deck.pop()\<close> removes and returns
  the last element and raises \<^verbatim>\<open>IndexError\<close> on the empty list.
\<close>

definition pop :: "'a list \<Rightarrow> error + ('a \<times> 'a list)" where
  "pop xs = (if xs = [] then Inl IndexError else Inr (last xs, butlast xs))"

section \<open>The hand evaluator\<close>

text \<open>
  \<^verbatim>\<open>get_hand_value\<close>, first loop: one pass over the hand that counts the aces and
  adds up the other cards.
\<close>

fun count_cards :: "card list \<Rightarrow> int \<Rightarrow> nat \<Rightarrow> int \<times> nat" where
  "count_cards [] val aces = (val, aces)"
| "count_cards (c # hand) val aces =
     (case fst c of
        Ace \<Rightarrow> count_cards hand val (aces + 1)
      | Jack \<Rightarrow> count_cards hand (val + 10) aces
      | Queen \<Rightarrow> count_cards hand (val + 10) aces
      | King \<Rightarrow> count_cards hand (val + 10) aces
      | Num n \<Rightarrow> count_cards hand (val + int n) aces)"

text \<open>
  Second loop, \<^verbatim>\<open>for _ in range(aces)\<close>: the body runs once per ace, and adds 10
  whenever that keeps the value at 21 or below.
\<close>

fun promote_aces :: "nat \<Rightarrow> int \<Rightarrow> int" where
  "promote_aces 0 val = val"
| "promote_aces (Suc k) val = promote_aces k (if val + 10 \<le> 21 then val + 10 else val)"

definition get_hand_value :: "card list \<Rightarrow> int" where
  "get_hand_value hand =
     (case count_cards hand 0 0 of (val, aces) \<Rightarrow> promote_aces aces (val + int aces))"

subsection \<open>The scoring rule as the specification words it\<close>

text \<open>
  The specification describes the score in three steps: sum the cards that are not aces
  (10 for a face card, the face value otherwise), add 1 per ace, then promote aces from 1 to
  11 one after the other, stopping at the first promotion that would pass 21 or when every
  ace is promoted.
\<close>

fun spec_card_points :: "rank \<Rightarrow> int" where
  "spec_card_points (Num n) = int n"
| "spec_card_points Jack = 10"
| "spec_card_points Queen = 10"
| "spec_card_points King = 10"
| "spec_card_points Ace = 0"

definition spec_non_ace_sum :: "card list \<Rightarrow> int" where
  "spec_non_ace_sum hand = sum_list (map (\<lambda>c. spec_card_points (fst c)) [c \<leftarrow> hand. fst c \<noteq> Ace])"

definition spec_ace_count :: "card list \<Rightarrow> nat" where
  "spec_ace_count hand = length [c \<leftarrow> hand. fst c = Ace]"

fun spec_promote :: "nat \<Rightarrow> int \<Rightarrow> int" where
  "spec_promote 0 t = t"
| "spec_promote (Suc k) t = (if t + 10 \<le> 21 then spec_promote k (t + 10) else t)"

definition spec_value :: "card list \<Rightarrow> int" where
  "spec_value hand =
     spec_promote (spec_ace_count hand) (spec_non_ace_sum hand + int (spec_ace_count hand))"

text \<open>
  The sum of a hand with every ace counted as 1.
\<close>

definition low_sum :: "card list \<Rightarrow> int" where
  "low_sum hand = sum_list (map (\<lambda>c. if fst c = Ace then 1 else spec_card_points (fst c)) hand)"

section \<open>Bankroll and statistics\<close>

text \<open>
  The statistics are the dictionary with the three keys \<^verbatim>\<open>wins\<close>, \<^verbatim>\<open>losses\<close> and
  \<^verbatim>\<open>pushes\<close> that \<^verbatim>\<open>load_game\<close> builds; no key is ever added or removed, so it is
  a record here. Its fields hold integers during play and whatever the save file holds
  when it is loaded. Bankroll and bets are Python integers, which are unbounded.
\<close>

record 'a stats =
  wins :: 'a
  losses :: 'a
  pushes :: 'a

section \<open>Round resolution\<close>

text \<open>
  \<^verbatim>\<open>resolve_game\<close> returns the new bankroll and updates the statistics in place; the
  model returns both. The printed messages are left out.
\<close>

definition resolve_game ::
  "card list \<Rightarrow> card list \<Rightarrow> int \<Rightarrow> int \<Rightarrow> int stats \<Rightarrow> int \<times> int stats" where
  "resolve_game player dealer bet money stats =
     (let player_val = get_hand_value player;
          dealer_val = get_hand_value dealer
      in if player_val > 21 then (money - bet, stats\<lparr>losses := losses stats + 1\<rparr>)
         else if dealer_val > 21 then (money + bet, stats\<lparr>wins := wins stats + 1\<rparr>)
         else if player_val > dealer_val then (money + bet, stats\<lparr>wins := wins stats + 1\<rparr>)
         else if player_val < dealer_val then (money - bet, stats\<lparr>losses := losses stats + 1\<rparr>)
         else (money, stats\<lparr>pushes := pushes stats + 1\<rparr>))"

subsection \<open>The outcome table as the specification words it\<close>

datatype outcome = Win | Loss | Push

definition spec_outcome :: "int \<Rightarrow> int \<Rightarrow> outcome" where
  "spec_outcome player_value dealer_value =
     (if player_value > 21 then Loss
      else if dealer_value > 21 then Win
      else if player_value > dealer_value then Win
      else if player_value < dealer_value then Loss
      else Push)"

fun spec_settle :: "outcome \<Rightarrow> int \<Rightarrow> int \<Rightarrow> int stats \<Rightarrow> int \<times> int stats" where
  "spec_settle Win bet money stats = (money + bet, stats\<lparr>wins := wins stats + 1\<rparr>)"
| "spec_settle Loss bet money stats = (money - bet, stats\<lparr>losses := losses stats + 1\<rparr>)"
| "spec_settle Push bet money stats = (money, stats\<lparr>pushes := pushes stats + 1\<rparr>)"

section \<open>The dealer's turn\<close>

text \<open>
  The loop of \<^verbatim>\<open>dealer_turn\<close>: while the dealer's value is below 17, pop a card from
  the deck and append it to the dealer's hand. Every pass shortens the deck, so the loop
  ends, with the final hand and deck or with the \<^verbatim>\<open>IndexError\<close> of an empty deck.
\<close>

function dealer_loop :: "card list \<Rightarrow> card list \<Rightarrow> error + (card list \<times> card list)" where
  "dealer_loop dealer deck =
     (if get_hand_value dealer < 17 then
        (case pop deck of
           Inl e \<Rightarrow> Inl e
         | Inr (c, deck') \<Rightarrow> dealer_loop (dealer @ [c]) deck')
      else Inr (dealer, deck))"
  by pat_completeness auto
termination
  by (relation "measure (\<lambda>(dealer, deck). length deck)")
     (auto simp: pop_def split: if_splits)

declare dealer_loop.simps [simp del]

text \<open>
  \<^verbatim>\<open>dealer_turn\<close> returns at once when the player is bust, and runs the loop
  otherwise. It changes the dealer's hand and the deck in place; the model returns both.
\<close>

definition dealer_turn ::
  "card list \<Rightarrow> card list \<Rightarrow> card list \<Rightarrow> error + (card list \<times> card list)" where
  "dealer_turn player dealer deck =
     (if get_hand_value player > 21 then Inr (dealer, deck) else dealer_loop dealer deck)"

section \<open>The player's turn\<close>

text \<open>
  The input is the list of the lines still to be read, each one already passed through
  \<^verbatim>\<open>strip().upper()\<close>, as the variables \<^verbatim>\<open>move\<close> and \<^verbatim>\<open>choice\<close> of the source
  are; \<^verbatim>\<open>input\<close> at the end of the list raises \<^verbatim>\<open>EOFError\<close>. The loop of
  \<^verbatim>\<open>player_turn\<close> reads one move per pass. Its result is the player's hand, the deck,
  the bet, the surrender flag and the unread input. \<^verbatim>\<open>can_double\<close> is computed by the
  caller of the loop, once.
\<close>

fun player_loop ::
  "bool \<Rightarrow> string list \<Rightarrow> card list \<Rightarrow> card list \<Rightarrow> int \<Rightarrow>
     error + (card list \<times> card list \<times> int \<times> bool \<times> string list)" where
  "player_loop can_double [] player deck bet = Inl EOFError"
| "player_loop can_double (move # inputs) player deck bet =
     (if move = ''H'' then
        (case pop deck of
           Inl e \<Rightarrow> Inl e
         | Inr (c, deck') \<Rightarrow>
             if get_hand_value (player @ [c]) > 21
             then Inr (player @ [c], deck', bet, False, inputs)
             else player_loop can_double inputs (player @ [c]) deck' bet)
      else if move = ''S'' then Inr (player, deck, bet, False, inputs)
      else if move = ''D'' \<and> can_double then
        (case pop deck of
           Inl e \<Rightarrow> Inl e
         | Inr (c, deck') \<Rightarrow> Inr (player @ [c], deck', bet * 2, False, inputs))
      else if move = ''SU'' then Inr (player, deck, bet, True, inputs)
      else player_loop can_double inputs player deck bet)"

definition player_turn ::
  "card list \<Rightarrow> card list \<Rightarrow> card list \<Rightarrow> int \<Rightarrow> int \<Rightarrow> string list \<Rightarrow>
     error + (card list \<times> card list \<times> int \<times> bool \<times> string list)" where
  "player_turn player dealer deck bet money inputs =
     (let can_double = (length player = 2 \<and> money \<ge> 2 * bet)
      in player_loop can_double inputs player deck bet)"

section \<open>Placing a bet\<close>

text \<open>
  \<^verbatim>\<open>str.isdigit\<close> and \<^verbatim>\<open>int\<close> on a string of ASCII characters: a non-empty string of
  decimal digits, read in base ten.
\<close>

definition isdigit :: "string \<Rightarrow> bool" where
  "isdigit s \<longleftrightarrow> s \<noteq> [] \<and> list_all (\<lambda>c. c \<in> set ''0123456789'') s"

definition int_of_digits :: "string \<Rightarrow> int" where
  "int_of_digits s = foldl (\<lambda>n c. 10 * n + (int (of_char c) - 48)) 0 s"

fun get_bet :: "int \<Rightarrow> string list \<Rightarrow> error + (int \<times> string list)" where
  "get_bet max_bet [] = Inl EOFError"
| "get_bet max_bet (choice # inputs) =
     (if choice = ''QUIT'' then Inl SystemExit
      else if \<not> isdigit choice then get_bet max_bet inputs
      else let bet = int_of_digits choice
           in if 1 \<le> bet \<and> bet \<le> max_bet then Inr (bet, inputs) else get_bet max_bet inputs)"

section \<open>One round\<close>

text \<open>
  The deal of \<^verbatim>\<open>game\<close>: two cards popped for the player, then two for the dealer.
\<close>

definition deal :: "card list \<Rightarrow> error + (card list \<times> card list \<times> card list)" where
  "deal deck =
     (case pop deck of Inl e \<Rightarrow> Inl e | Inr (c1, deck1) \<Rightarrow>
      case pop deck1 of Inl e \<Rightarrow> Inl e | Inr (c2, deck2) \<Rightarrow>
      case pop deck2 of Inl e \<Rightarrow> Inl e | Inr (c3, deck3) \<Rightarrow>
      case pop deck3 of Inl e \<Rightarrow> Inl e | Inr (c4, deck4) \<Rightarrow>
        Inr ([c1, c2], [c3, c4], deck4))"

text \<open>
  The body of the loop of \<^verbatim>\<open>game\<close> from the deal to the new bankroll, for a bet
  already placed and the shuffled deck that \<^verbatim>\<open>get_deck\<close> returned. The result is the
  bankroll, the statistics, the two final hands, the deck and the unread input.
\<close>

definition play_round ::
  "int \<Rightarrow> int stats \<Rightarrow> int \<Rightarrow> card list \<Rightarrow> string list \<Rightarrow>
     error + (int \<times> int stats \<times> card list \<times> card list \<times> card list \<times> string list)" where
  "play_round money stats bet deck inputs =
     (case deal deck of
        Inl e \<Rightarrow> Inl e
      | Inr (player_hand, dealer_hand, deck1) \<Rightarrow>
          (case player_turn player_hand dealer_hand deck1 bet money inputs of
             Inl e \<Rightarrow> Inl e
           | Inr (player_hand', deck2, final_bet, surrendered, inputs') \<Rightarrow>
               if surrendered then
                 Inr (money - final_bet div 2, stats\<lparr>losses := losses stats + 1\<rparr>,
                      player_hand', dealer_hand, deck2, inputs')
               else
                 (case dealer_turn player_hand' dealer_hand deck2 of
                    Inl e \<Rightarrow> Inl e
                  | Inr (dealer_hand', deck3) \<Rightarrow>
                      (case resolve_game player_hand' dealer_hand' final_bet money stats of
                         (money', stats') \<Rightarrow>
                           Inr (money', stats', player_hand', dealer_hand', deck3, inputs')))))"

text \<open>
  One pass of the loop of \<^verbatim>\<open>game\<close>: the program exits when the bankroll is zero or
  less, and otherwise reads a bet and plays the round.
\<close>

definition game_round ::
  "int \<Rightarrow> int stats \<Rightarrow> card list \<Rightarrow> string list \<Rightarrow>
     error + (int \<times> int stats \<times> card list \<times> card list \<times> card list \<times> string list)" where
  "game_round money stats deck inputs =
     (if money \<le> 0 then Inl SystemExit
      else case get_bet money inputs of
             Inl e \<Rightarrow> Inl e
           | Inr (bet, inputs') \<Rightarrow> play_round money stats bet deck inputs')"

section \<open>Loading the saved state\<close>

text \<open>
  The values that \<^verbatim>\<open>json.load\<close> returns (floating-point numbers left out). An object
  is the list of its members; a lookup takes the first member with the key.
\<close>

datatype json = JNull | JBool bool | JInt int | JStr string | JArr "json list"
  | JObj "(string \<times> json) list"

text \<open>
  \<^verbatim>\<open>data.get(key, default)\<close> on a dictionary.
\<close>

definition dict_get :: "(string \<times> json) list \<Rightarrow> string \<Rightarrow> json \<Rightarrow> json" where
  "dict_get data key dflt = (case map_of data key of None \<Rightarrow> dflt | Some v \<Rightarrow> v)"

text \<open>
  \<^verbatim>\<open>load_game\<close> reads the save file through the library: the argument is \<open>None\<close>
  when \<^verbatim>\<open>os.path.exists\<close> is false, and otherwise the outcome of opening the file and
  of \<^verbatim>\<open>json.load\<close>, which is the parsed value or the exception raised (a
  \<^verbatim>\<open>JSONDecodeError\<close> for content that is not JSON). The function has no handler, so
  an exception leaves it. A parsed value that is not an object has no method
  \<^verbatim>\<open>get\<close>.
\<close>

definition load_game :: "(error + json) option \<Rightarrow> error + (json \<times> json stats)" where
  "load_game save_file =
     (case save_file of
        None \<Rightarrow> Inr (JInt 5000, \<lparr>wins = JInt 0, losses = JInt 0, pushes = JInt 0\<rparr>)
      | Some (Inl e) \<Rightarrow> Inl e
      | Some (Inr (JObj data)) \<Rightarrow>
          Inr (dict_get data ''money'' (JInt 5000),
               \<lparr>wins = dict_get data ''wins'' (JInt 0),
                losses = dict_get data ''losses'' (JInt 0),
                pushes = dict_get data ''pushes'' (JInt 0)\<rparr>)
      | Some (Inr _) \<Rightarrow> Inl AttributeError)"

section \<open>Properties of the hand evaluator\<close>

lemma count_cards_acc:
  "count_cards hand val aces = (val + spec_non_ace_sum hand, aces + spec_ace_count hand)"
proof (induction hand arbitrary: val aces)
  case Nil
  show ?case by (simp add: spec_non_ace_sum_def spec_ace_count_def)
next
  case (Cons c hand)
  show ?case
    by (cases "fst c") (simp_all add: Cons.IH spec_non_ace_sum_def spec_ace_count_def)
qed

lemma promote_aces_stuck: "21 < val + 10 \<Longrightarrow> promote_aces k val = val"
  by (induction k) simp_all

lemma promote_aces_spec: "promote_aces k val = spec_promote k val"
proof (induction k arbitrary: val)
  case 0
  show ?case by simp
next
  case (Suc k)
  show ?case
  proof (cases "val + 10 \<le> 21")
    case True
    then show ?thesis by (simp add: Suc.IH)
  next
    case False
    then have "promote_aces k val = val" by (simp add: promote_aces_stuck)
    with False show ?thesis by simp
  qed
qed

lemma get_hand_value_spec: "get_hand_value hand = spec_value hand"
  by (simp add: get_hand_value_def spec_value_def count_cards_acc promote_aces_spec)

text \<open>
  Claim C3. For every hand the evaluator returns the soft-ace score of the specification:
  the non-ace cards summed (10 for J, Q, K, the face value otherwise), 1 added per ace, and
  aces promoted from 1 to 11 as long as the total stays at 21 or below. In particular
  (A, A) is worth 12, (A, A, 9) is worth 21, and (10, 10, 5) is worth 25, which is above 21.
\<close>

theorem get_hand_value_soft_ace:
  "get_hand_value hand = spec_value hand
   \<and> get_hand_value [(Ace, s1), (Ace, s2)] = 12
   \<and> get_hand_value [(Ace, s1), (Ace, s2), (Num 9, s3)] = 21
   \<and> get_hand_value [(Num 10, s1), (Num 10, s2), (Num 5, s3)] = 25
   \<and> get_hand_value [(Num 10, s1), (Num 10, s2), (Num 5, s3)] > 21"
proof -
  have "get_hand_value [(Ace, s1), (Ace, s2)] = 12"
    by (simp add: get_hand_value_def eval_nat_numeral)
  moreover have "get_hand_value [(Ace, s1), (Ace, s2), (Num 9, s3)] = 21"
    by (simp add: get_hand_value_def eval_nat_numeral)
  moreover have "get_hand_value [(Num 10, s1), (Num 10, s2), (Num 5, s3)] = 25"
    by (simp add: get_hand_value_def)
  ultimately show ?thesis by (simp add: get_hand_value_spec)
qed

theorem get_hand_value_soft_ace_witness:
  "get_hand_value [(Ace, HEARTS), (Num 7, SPADES), (Ace, CLUBS), (King, DIAMONDS)]
     = spec_value [(Ace, HEARTS), (Num 7, SPADES), (Ace, CLUBS), (King, DIAMONDS)]
   \<and> spec_value [(Ace, HEARTS), (Num 7, SPADES), (Ace, CLUBS), (King, DIAMONDS)] = 19
   \<and> get_hand_value [(Ace, HEARTS), (Ace, SPADES)] = 12
   \<and> get_hand_value [(Ace, HEARTS), (Ace, SPADES), (Num 9, CLUBS)] = 21
   \<and> get_hand_value [(Num 10, HEARTS), (Num 10, SPADES), (Num 5, CLUBS)] = 25"
proof -
  have "spec_value [(Ace, HEARTS), (Num 7, SPADES), (Ace, CLUBS), (King, DIAMONDS)] = 19"
    by (simp add: spec_value_def spec_ace_count_def spec_non_ace_sum_def eval_nat_numeral)
  with get_hand_value_soft_ace
    [of "[(Ace, HEARTS), (Num 7, SPADES), (Ace, CLUBS), (King, DIAMONDS)]" HEARTS SPADES CLUBS]
  show ?thesis by simp
qed

subsection \<open>At most one ace counts as 11\<close>

lemma low_sum_split: "low_sum hand = spec_non_ace_sum hand + int (spec_ace_count hand)"
  by (induction hand) (simp_all add: low_sum_def spec_non_ace_sum_def spec_ace_count_def)

lemma spec_card_points_nonneg: "0 \<le> spec_card_points r"
  by (cases r) simp_all

lemma spec_non_ace_sum_nonneg: "0 \<le> spec_non_ace_sum hand"
  by (induction hand) (simp_all add: spec_non_ace_sum_def spec_card_points_nonneg)

lemma spec_ace_count_pos: "0 < spec_ace_count hand \<longleftrightarrow> (\<exists>c\<in>set hand. fst c = Ace)"
  by (induction hand) (auto simp: spec_ace_count_def)

text \<open>
  When the value is at least the number of passes, a second promotion would need a value
  of 1 or less after the first one, so the loop adds 10 at most once.
\<close>

lemma promote_aces_once:
  "int k \<le> val \<Longrightarrow> promote_aces k val = (if 0 < k \<and> val + 10 \<le> 21 then val + 10 else val)"
proof (induction k arbitrary: val)
  case 0
  show ?case by simp
next
  case (Suc k)
  show ?case
  proof (cases "val + 10 \<le> 21")
    case True
    have "promote_aces k (val + 10) = val + 10"
    proof (cases k)
      case 0
      then show ?thesis by simp
    next
      case (Suc j)
      with Suc.prems have "21 < (val + 10) + 10" by simp
      then show ?thesis by (rule promote_aces_stuck)
    qed
    with True show ?thesis by simp
  next
    case False
    then have "promote_aces k val = val" by (simp add: promote_aces_stuck)
    with False show ?thesis by simp
  qed
qed

lemma get_hand_value_low_sum:
  "get_hand_value hand = promote_aces (spec_ace_count hand) (low_sum hand)"
  by (simp add: get_hand_value_def count_cards_acc low_sum_split)

lemma low_sum_ge_aces: "int (spec_ace_count hand) \<le> low_sum hand"
  using spec_non_ace_sum_nonneg [of hand] by (simp add: low_sum_split)

lemma get_hand_value_cases:
  "get_hand_value hand =
     (if (\<exists>c\<in>set hand. fst c = Ace) \<and> low_sum hand + 10 \<le> 21
      then low_sum hand + 10 else low_sum hand)"
  by (simp add: get_hand_value_low_sum promote_aces_once low_sum_ge_aces spec_ace_count_pos)

text \<open>
  Claim C10. For every hand at most one ace is counted as 11: with L the sum of the hand
  with every ace as 1, the evaluator returns L + 10 when the hand contains an ace and
  L + 10 is at most 21, and L otherwise. The promotion never happens a second time, however
  many aces the hand holds.
\<close>

theorem get_hand_value_one_promotion:
  "get_hand_value hand =
     (if (\<exists>c\<in>set hand. fst c = Ace) \<and> low_sum hand + 10 \<le> 21
      then low_sum hand + 10 else low_sum hand)"
  by (rule get_hand_value_cases)

theorem get_hand_value_one_promotion_witness:
  "(\<exists>c\<in>set [(Ace, HEARTS), (Ace, DIAMONDS), (Ace, SPADES), (Ace, CLUBS)]. fst c = Ace)
   \<and> low_sum [(Ace, HEARTS), (Ace, DIAMONDS), (Ace, SPADES), (Ace, CLUBS)] = 4
   \<and> get_hand_value [(Ace, HEARTS), (Ace, DIAMONDS), (Ace, SPADES), (Ace, CLUBS)] = 14"
  using get_hand_value_one_promotion
    [of "[(Ace, HEARTS), (Ace, DIAMONDS), (Ace, SPADES), (Ace, CLUBS)]"]
  by (simp add: low_sum_def)

subsection \<open>The order of the cards does not matter\<close>

lemma spec_non_ace_sum_mset:
  "spec_non_ace_sum hand =
     sum_mset (image_mset (\<lambda>c. spec_card_points (fst c))
       (filter_mset (\<lambda>c. fst c \<noteq> Ace) (mset hand)))"
  unfolding spec_non_ace_sum_def by (simp flip: sum_mset_sum_list)

lemma spec_ace_count_mset:
  "spec_ace_count hand = size (filter_mset (\<lambda>c. fst c = Ace) (mset hand))"
  unfolding spec_ace_count_def by (simp flip: size_mset)

text \<open>
  Claim C9. For every hand and every permutation of it (a list with the same cards, each as
  often), the evaluator returns the same value.
\<close>

theorem get_hand_value_reorder:
  "mset hand = mset hand' \<Longrightarrow> get_hand_value hand = get_hand_value hand'"
  by (simp add: get_hand_value_spec spec_value_def spec_non_ace_sum_mset spec_ace_count_mset)

theorem get_hand_value_reorder_witness:
  "mset [(Ace, HEARTS), (Num 9, SPADES), (Ace, CLUBS)]
     = mset [(Num 9, SPADES), (Ace, CLUBS), (Ace, HEARTS)]
   \<and> get_hand_value [(Ace, HEARTS), (Num 9, SPADES), (Ace, CLUBS)] = 21
   \<and> get_hand_value [(Num 9, SPADES), (Ace, CLUBS), (Ace, HEARTS)] = 21"
proof -
  have m: "mset [(Ace, HEARTS), (Num 9, SPADES), (Ace, CLUBS)]
             = mset [(Num 9, SPADES), (Ace, CLUBS), (Ace, HEARTS)]"
    by simp
  have v: "get_hand_value [(Ace, HEARTS), (Num 9, SPADES), (Ace, CLUBS)] = 21"
    by (simp add: get_hand_value_def eval_nat_numeral)
  from get_hand_value_reorder [OF m] m v show ?thesis by simp
qed

section \<open>Properties of round resolution\<close>

lemma resolve_game_spec:
  "resolve_game player dealer bet money stats =
     spec_settle (spec_outcome (get_hand_value player) (get_hand_value dealer)) bet money stats"
  by (simp add: resolve_game_def spec_outcome_def Let_def)

lemma spec_settle_counters:
  "(wins (snd (spec_settle out bet money stats)),
    losses (snd (spec_settle out bet money stats)),
    pushes (snd (spec_settle out bet money stats))) \<in>
       {(wins stats + 1, losses stats, pushes stats),
        (wins stats, losses stats + 1, pushes stats),
        (wins stats, losses stats, pushes stats + 1)}"
  by (cases out) simp_all

lemma resolve_game_bust:
  "21 < get_hand_value player \<Longrightarrow>
     resolve_game player dealer bet money stats =
       (money - bet, stats\<lparr>losses := losses stats + 1\<rparr>)"
  by (simp add: resolve_game_def Let_def)

lemma resolve_game_money:
  "0 \<le> bet \<Longrightarrow> money - bet \<le> fst (resolve_game player dealer bet money stats)"
  by (simp add: resolve_game_def Let_def)

text \<open>
  Claim C2. For every pair of final hands, every bet and every bankroll, the resolution
  follows the ordered table of the specification: player above 21 is a loss; else dealer
  above 21 is a win; else the higher value wins or loses; else it is a push. A win adds the
  bet to the bankroll and 1 to the wins, a loss subtracts the bet and adds 1 to the losses,
  a push leaves the bankroll and adds 1 to the pushes. Exactly one of the three counters
  grows, by exactly 1.
\<close>

theorem resolve_game_table:
  "resolve_game player dealer bet money stats =
     spec_settle (spec_outcome (get_hand_value player) (get_hand_value dealer)) bet money stats
   \<and> (wins (snd (resolve_game player dealer bet money stats)),
       losses (snd (resolve_game player dealer bet money stats)),
       pushes (snd (resolve_game player dealer bet money stats))) \<in>
       {(wins stats + 1, losses stats, pushes stats),
        (wins stats, losses stats + 1, pushes stats),
        (wins stats, losses stats, pushes stats + 1)}"
  unfolding resolve_game_spec by (rule conjI [OF refl spec_settle_counters])

theorem resolve_game_table_witness:
  "resolve_game [(Num 9, CLUBS), (Num 9, HEARTS)]
     [(Num 10, SPADES), (Num 6, DIAMONDS), (Num 5, HEARTS)] 10 100
     \<lparr>wins = 0, losses = 0, pushes = 0\<rparr> = (90, \<lparr>wins = 0, losses = 1, pushes = 0\<rparr>)
   \<and> resolve_game [(Num 10, CLUBS), (Ace, HEARTS)] [(Num 10, SPADES), (Num 9, DIAMONDS)] 10 100
     \<lparr>wins = 0, losses = 0, pushes = 0\<rparr> = (110, \<lparr>wins = 1, losses = 0, pushes = 0\<rparr>)
   \<and> resolve_game [(Num 10, CLUBS), (Num 8, HEARTS)] [(King, SPADES), (Num 8, DIAMONDS)] 10 100
     \<lparr>wins = 0, losses = 0, pushes = 0\<rparr> = (100, \<lparr>wins = 0, losses = 0, pushes = 1\<rparr>)"
proof -
  have o1: "spec_outcome (get_hand_value [(Num 9, CLUBS), (Num 9, HEARTS)])
      (get_hand_value [(Num 10, SPADES), (Num 6, DIAMONDS), (Num 5, HEARTS)]) = Loss"
    by (simp add: spec_outcome_def get_hand_value_def)
  have o2: "spec_outcome (get_hand_value [(Num 10, CLUBS), (Ace, HEARTS)])
      (get_hand_value [(Num 10, SPADES), (Num 9, DIAMONDS)]) = Win"
    by (simp add: spec_outcome_def get_hand_value_def)
  have o3: "spec_outcome (get_hand_value [(Num 10, CLUBS), (Num 8, HEARTS)])
      (get_hand_value [(King, SPADES), (Num 8, DIAMONDS)]) = Push"
    by (simp add: spec_outcome_def get_hand_value_def)
  from resolve_game_table [of "[(Num 9, CLUBS), (Num 9, HEARTS)]"
      "[(Num 10, SPADES), (Num 6, DIAMONDS), (Num 5, HEARTS)]" 10 100
      "\<lparr>wins = 0, losses = 0, pushes = 0\<rparr>"]
    resolve_game_table [of "[(Num 10, CLUBS), (Ace, HEARTS)]"
      "[(Num 10, SPADES), (Num 9, DIAMONDS)]" 10 100 "\<lparr>wins = 0, losses = 0, pushes = 0\<rparr>"]
    resolve_game_table [of "[(Num 10, CLUBS), (Num 8, HEARTS)]"
      "[(King, SPADES), (Num 8, DIAMONDS)]" 10 100 "\<lparr>wins = 0, losses = 0, pushes = 0\<rparr>"]
  show ?thesis by (simp add: o1 o2 o3)
qed

section \<open>Properties of the dealer's turn\<close>

lemma dealer_loop_stop:
  "17 \<le> get_hand_value dealer \<Longrightarrow> dealer_loop dealer deck = Inr (dealer, deck)"
  by (simp add: dealer_loop.simps)

lemma dealer_loop_draw:
  "get_hand_value dealer < 17 \<Longrightarrow> deck \<noteq> [] \<Longrightarrow>
     dealer_loop dealer deck = dealer_loop (dealer @ [last deck]) (butlast deck)"
  by (subst dealer_loop.simps) (simp add: pop_def)

lemma dealer_loop_empty:
  "get_hand_value dealer < 17 \<Longrightarrow> dealer_loop dealer [] = Inl IndexError"
  by (subst dealer_loop.simps) (simp add: pop_def)

text \<open>
  The cards leave the deck from its end, so the first \<open>k\<close> cards drawn are
  \<open>take k (rev deck)\<close>, and \<open>take (length deck - k) deck\<close> stays.
\<close>

lemma take_Suc_rev:
  "deck \<noteq> [] \<Longrightarrow> take (Suc j) (rev deck) = last deck # take j (rev (butlast deck))"
  by (cases deck rule: rev_cases) simp_all

lemma dealer_loop_draws:
  "k \<le> length deck \<Longrightarrow>
   17 \<le> get_hand_value (dealer @ take k (rev deck)) \<Longrightarrow>
   (\<forall>j<k. get_hand_value (dealer @ take j (rev deck)) < 17) \<Longrightarrow>
   dealer_loop dealer deck = Inr (dealer @ take k (rev deck), take (length deck - k) deck)"
proof (induction k arbitrary: dealer deck)
  case 0
  then show ?case by (simp add: dealer_loop_stop)
next
  case (Suc k)
  from Suc.prems(1) have ne: "deck \<noteq> []" by auto
  from Suc.prems(3) have low: "get_hand_value dealer < 17" by force
  have len: "k \<le> length (butlast deck)" using Suc.prems(1) by simp
  have stop: "17 \<le> get_hand_value ((dealer @ [last deck]) @ take k (rev (butlast deck)))"
    using Suc.prems(2) ne by (simp add: take_Suc_rev)
  have before:
    "\<forall>j<k. get_hand_value ((dealer @ [last deck]) @ take j (rev (butlast deck))) < 17"
  proof (intro allI impI)
    fix j assume "j < k"
    then have "Suc j < Suc k" by simp
    with Suc.prems(3) have "get_hand_value (dealer @ take (Suc j) (rev deck)) < 17" by blast
    then show "get_hand_value ((dealer @ [last deck]) @ take j (rev (butlast deck))) < 17"
      using ne by (simp add: take_Suc_rev)
  qed
  have "dealer_loop dealer deck = dealer_loop (dealer @ [last deck]) (butlast deck)"
    using low ne by (rule dealer_loop_draw)
  also have "\<dots> = Inr ((dealer @ [last deck]) @ take k (rev (butlast deck)),
                      take (length (butlast deck) - k) (butlast deck))"
    using len stop before by (rule Suc.IH)
  also have "\<dots> = Inr (dealer @ take (Suc k) (rev deck), take (length deck - Suc k) deck)"
    using ne by (simp add: take_Suc_rev take_butlast)
  finally show ?case .
qed

text \<open>
  Whenever the loop returns a hand, that hand is worth 17 or more.
\<close>

lemma dealer_loop_exit:
  "dealer_loop dealer deck = Inr (dealer', deck') \<Longrightarrow> 17 \<le> get_hand_value dealer'"
proof (induction dealer deck rule: dealer_loop.induct)
  case (1 dealer deck)
  show ?case
  proof (cases "get_hand_value dealer < 17")
    case True
    with "1.prems" have ne: "deck \<noteq> []" by (auto simp: dealer_loop_empty)
    then have p: "pop deck = Inr (last deck, butlast deck)" by (simp add: pop_def)
    from "1.prems" True ne
    have "dealer_loop (dealer @ [last deck]) (butlast deck) = Inr (dealer', deck')"
      by (simp add: dealer_loop_draw)
    with "1.IH" [OF True p refl] show ?thesis by simp
  next
    case False
    with "1.prems" show ?thesis by (simp add: dealer_loop_stop)
  qed
qed

text \<open>
  Seventeen cards of the deck that \<^verbatim>\<open>get_deck\<close> builds are always enough: each card
  is worth at least 1.
\<close>

lemma in_deck_points_pos:
  "c \<in> set unshuffled_deck \<Longrightarrow> 1 \<le> (if fst c = Ace then 1 else spec_card_points (fst c))"
  by (auto simp: unshuffled_deck_def suit_cards_def)

lemma low_sum_append: "low_sum (xs @ ys) = low_sum xs + low_sum ys"
  by (simp add: low_sum_def)

lemma low_sum_nonneg: "0 \<le> low_sum hand"
  using low_sum_ge_aces [of hand] by simp

lemma low_sum_ge_length:
  "set hand \<subseteq> set unshuffled_deck \<Longrightarrow> int (length hand) \<le> low_sum hand"
proof (induction hand)
  case Nil
  show ?case by (simp add: low_sum_def)
next
  case (Cons c hand)
  then have "c \<in> set unshuffled_deck" and "int (length hand) \<le> low_sum hand" by simp_all
  with in_deck_points_pos [of c] show ?case by (simp add: low_sum_def)
qed

lemma get_hand_value_ge_low_sum: "low_sum hand \<le> get_hand_value hand"
  by (simp add: get_hand_value_cases)

lemma enough_cards:
  assumes "set deck \<subseteq> set unshuffled_deck" "17 \<le> length deck"
  shows "\<exists>k\<le>length deck. 17 \<le> get_hand_value (dealer @ take k (rev deck))"
proof -
  have "set (take 17 (rev deck)) \<subseteq> set unshuffled_deck"
    using assms(1) set_take_subset [of 17 "rev deck"] by auto
  then have "int (length (take 17 (rev deck))) \<le> low_sum (take 17 (rev deck))"
    by (rule low_sum_ge_length)
  with assms(2) have "17 \<le> low_sum (take 17 (rev deck))" by simp
  with low_sum_nonneg [of dealer] have "17 \<le> low_sum (dealer @ take 17 (rev deck))"
    by (simp add: low_sum_append)
  with get_hand_value_ge_low_sum [of "dealer @ take 17 (rev deck)"]
  have "17 \<le> get_hand_value (dealer @ take 17 (rev deck))" by simp
  with assms(2) show ?thesis by blast
qed

text \<open>
  Claim C4. The dealer phase is the loop of \<^verbatim>\<open>dealer_turn\<close>, which
  \<^verbatim>\<open>dealer_turn\<close> runs whenever the player is not bust. For every dealer hand and
  every deck that holds enough cards for the dealer to reach 17: the dealer draws cards one
  at a time exactly while the value of the hand is below 17 and stops at the first hand
  worth 17 or more (the value is the evaluator's, so a soft 17 stops the dealer). The final
  hand is worth 17 or more, and a hand already worth 17 or more draws no card.
\<close>

theorem dealer_phase_draws_to_17:
  assumes "\<exists>k\<le>length deck. 17 \<le> get_hand_value (dealer @ take k (rev deck))"
  shows "(\<exists>k\<le>length deck.
            dealer_loop dealer deck =
              Inr (dealer @ take k (rev deck), take (length deck - k) deck)
            \<and> 17 \<le> get_hand_value (dealer @ take k (rev deck))
            \<and> (\<forall>j<k. get_hand_value (dealer @ take j (rev deck)) < 17))
         \<and> (17 \<le> get_hand_value dealer \<longrightarrow> dealer_loop dealer deck = Inr (dealer, deck))
         \<and> (get_hand_value player \<le> 21 \<longrightarrow>
              dealer_turn player dealer deck = dealer_loop dealer deck)"
proof -
  define P where
    "P k \<longleftrightarrow> k \<le> length deck \<and> 17 \<le> get_hand_value (dealer @ take k (rev deck))" for k
  define k where "k = (LEAST k. P k)"
  from assms have ex: "\<exists>k. P k" by (auto simp: P_def)
  then have Pk: "P k" unfolding k_def by (metis LeastI)
  have least: "\<not> P j" if "j < k" for j
    using that unfolding k_def by (rule not_less_Least)
  have kl: "k \<le> length deck" and stop: "17 \<le> get_hand_value (dealer @ take k (rev deck))"
    using Pk by (auto simp: P_def)
  have before: "\<forall>j<k. get_hand_value (dealer @ take j (rev deck)) < 17"
  proof (intro allI impI)
    fix j assume jk: "j < k"
    with kl have "j \<le> length deck" by simp
    with least [OF jk] show "get_hand_value (dealer @ take j (rev deck)) < 17"
      by (simp add: P_def)
  qed
  have run: "dealer_loop dealer deck =
      Inr (dealer @ take k (rev deck), take (length deck - k) deck)"
    using kl stop before by (rule dealer_loop_draws)
  have stand: "17 \<le> get_hand_value dealer \<longrightarrow> dealer_loop dealer deck = Inr (dealer, deck)"
    by (simp add: dealer_loop_stop)
  have turn: "get_hand_value player \<le> 21 \<longrightarrow>
      dealer_turn player dealer deck = dealer_loop dealer deck"
    by (simp add: dealer_turn_def)
  from kl run stop before stand turn show ?thesis by blast
qed

theorem dealer_phase_draws_to_17_witness:
  "(\<exists>k\<le>length [(Num 3, CLUBS), (Num 5, HEARTS)].
         17 \<le> get_hand_value ([(Num 10, SPADES), (Num 6, DIAMONDS)]
                  @ take k (rev [(Num 3, CLUBS), (Num 5, HEARTS)])))
   \<and> get_hand_value [(Num 9, CLUBS), (Num 9, HEARTS)] \<le> 21
   \<and> get_hand_value [(Num 10, SPADES), (Num 6, DIAMONDS)] = 16
   \<and> dealer_turn [(Num 9, CLUBS), (Num 9, HEARTS)] [(Num 10, SPADES), (Num 6, DIAMONDS)]
        [(Num 3, CLUBS), (Num 5, HEARTS)]
       = Inr ([(Num 10, SPADES), (Num 6, DIAMONDS), (Num 5, HEARTS)], [(Num 3, CLUBS)])
   \<and> 17 \<le> get_hand_value [(Ace, SPADES), (Num 6, DIAMONDS)]
   \<and> dealer_turn [(Num 9, CLUBS), (Num 9, HEARTS)] [(Ace, SPADES), (Num 6, DIAMONDS)]
        [(Num 3, CLUBS), (Num 5, HEARTS)]
       = Inr ([(Ace, SPADES), (Num 6, DIAMONDS)], [(Num 3, CLUBS), (Num 5, HEARTS)])"
proof -
  let ?player = "[(Num 9, CLUBS), (Num 9, HEARTS)]"
  let ?dealer = "[(Num 10, SPADES), (Num 6, DIAMONDS)]"
  let ?soft = "[(Ace, SPADES), (Num 6, DIAMONDS)]"
  let ?deck = "[(Num 3, CLUBS), (Num 5, HEARTS)]"
  have h1: "get_hand_value ?player \<le> 21" by (simp add: get_hand_value_def)
  have v1: "17 \<le> get_hand_value (?dealer @ take 1 (rev ?deck))"
    by (simp add: get_hand_value_def)
  have h2: "\<exists>k\<le>length ?deck. 17 \<le> get_hand_value (?dealer @ take k (rev ?deck))"
    by (rule exI [of _ 1]) (use v1 in simp)
  have v0: "get_hand_value ?dealer = 16" by (simp add: get_hand_value_def)
  from dealer_phase_draws_to_17 [OF h2, of ?player] h1 obtain k where k:
    "k \<le> length ?deck"
    "dealer_loop ?dealer ?deck =
       Inr (?dealer @ take k (rev ?deck), take (length ?deck - k) ?deck)"
    "17 \<le> get_hand_value (?dealer @ take k (rev ?deck))"
    "\<forall>j<k. get_hand_value (?dealer @ take j (rev ?deck)) < 17"
    and t: "dealer_turn ?player ?dealer ?deck = dealer_loop ?dealer ?deck"
    by blast
  have "k \<noteq> 0" using k(3) v0 by (intro notI) simp
  moreover have "k < 2"
  proof (rule ccontr)
    assume "\<not> k < 2"
    then have "1 < k" by simp
    with k(4) have "get_hand_value (?dealer @ take 1 (rev ?deck)) < 17" by blast
    with v1 show False by simp
  qed
  ultimately have "k = 1" by simp
  with k(2) t have draw: "dealer_turn ?player ?dealer ?deck
       = Inr ([(Num 10, SPADES), (Num 6, DIAMONDS), (Num 5, HEARTS)], [(Num 3, CLUBS)])"
    by simp
  have s0: "17 \<le> get_hand_value ?soft" by (simp add: get_hand_value_def)
  have s2: "\<exists>k\<le>length ?deck. 17 \<le> get_hand_value (?soft @ take k (rev ?deck))"
    by (rule exI [of _ 0]) (use s0 in simp)
  from dealer_phase_draws_to_17 [OF s2, of ?player] h1 s0
  have stand: "dealer_turn ?player ?soft ?deck = Inr (?soft, ?deck)"
    by simp
  from h1 h2 v0 draw s0 stand show ?thesis by simp
qed

section \<open>Properties of the player's turn\<close>

text \<open>
  The bet that the loop returns is the bet it was given, or twice that bet when
  \<^verbatim>\<open>can_double\<close> was true and the player did not surrender.
\<close>

lemma player_loop_bet:
  "player_loop cd inputs player deck bet = Inr (p', d', b', sur, i') \<Longrightarrow>
     b' = bet \<or> (cd \<and> \<not> sur \<and> b' = bet * 2)"
proof (induction cd inputs player deck bet rule: player_loop.induct)
  case (1 cd player deck bet)
  then show ?case by simp
next
  case (2 cd move inputs player deck bet)
  then show ?case
    by (auto split: if_splits sum.splits prod.splits)
qed

text \<open>
  A player who surrenders holds a hand that is not bust, when the hand at entry was not.
\<close>

lemma player_loop_surrender_value:
  "player_loop cd inputs player deck bet = Inr (p', d', b', True, i') \<Longrightarrow>
     get_hand_value player \<le> 21 \<Longrightarrow> get_hand_value p' \<le> 21"
proof (induction cd inputs player deck bet rule: player_loop.induct)
  case (1 cd player deck bet)
  then show ?case by simp
next
  case (2 cd move inputs player deck bet)
  then show ?case
    by (auto split: if_splits sum.splits prod.splits)
qed

lemma player_turn_bet:
  assumes "player_turn player dealer deck bet money inputs = Inr (p', d', b', sur, i')"
  shows "b' = bet \<or> (\<not> sur \<and> 2 * bet \<le> money \<and> b' = bet * 2)"
  using player_loop_bet
    [of "length player = 2 \<and> money \<ge> 2 * bet" inputs player deck bet p' d' b' sur i'] assms
  by (auto simp: player_turn_def Let_def)

text \<open>
  With a bankroll below twice the bet, no double-down is ever performed.
\<close>

lemma player_turn_no_double:
  assumes "money < 2 * bet"
    and "player_turn player dealer deck bet money inputs = Inr (p', d', b', sur, i')"
  shows "b' = bet"
  using player_turn_bet [OF assms(2)] assms(1) by auto

text \<open>
  A hit that does not bust, followed by a double-down, is always performed when the hand at
  entry had two cards and the bankroll covered twice the bet: the hand then has four cards.
\<close>

lemma player_turn_hit_then_double:
  assumes "length player = 2" "2 * bet \<le> money"
    and "pop deck = Inr (c, deck')" "get_hand_value (player @ [c]) \<le> 21"
    and "pop deck' = Inr (c', deck'')"
  shows "player_turn player dealer deck bet money (''H'' # ''D'' # inputs) =
           Inr (player @ [c, c'], deck'', bet * 2, False, inputs)"
  using assms by (simp add: player_turn_def)

text \<open>
  Claim C1. A double-down is accepted only when the player's hand has exactly two cards and
  the bankroll is at least twice the bet; one attempted on a hand of more than two cards is
  rejected. The code computes \<^verbatim>\<open>can_double\<close> once, before the loop, from the length
  of the hand at that moment, and never again. With a bankroll of 100 and a bet of 10, the
  player holding (2, 3) hits and holds three cards worth 9; the double-down that follows is
  performed on that three-card hand: the bet becomes 20 and a fourth card is drawn.
\<close>

theorem double_down_after_hit:
  "player_turn [(Num 2, HEARTS), (Num 3, SPADES)] [(Num 10, CLUBS), (Num 7, DIAMONDS)]
     [(Num 8, CLUBS), (Num 5, HEARTS), (Num 4, DIAMONDS)] 10 100 [''H'', ''S'']
   = Inr ([(Num 2, HEARTS), (Num 3, SPADES), (Num 4, DIAMONDS)],
          [(Num 8, CLUBS), (Num 5, HEARTS)], 10, False, [])
   \<and> player_turn [(Num 2, HEARTS), (Num 3, SPADES)] [(Num 10, CLUBS), (Num 7, DIAMONDS)]
     [(Num 8, CLUBS), (Num 5, HEARTS), (Num 4, DIAMONDS)] 10 100 [''H'', ''D'']
   = Inr ([(Num 2, HEARTS), (Num 3, SPADES), (Num 4, DIAMONDS), (Num 5, HEARTS)],
          [(Num 8, CLUBS)], 20, False, [])"
  by (simp add: player_turn_def pop_def get_hand_value_def)

section \<open>Properties of a round\<close>

lemma in_deck_points:
  "c \<in> set unshuffled_deck \<Longrightarrow>
     (if fst c = Ace then 1 else spec_card_points (fst c)) \<le> 10"
  by (auto simp: unshuffled_deck_def suit_cards_def)

lemma get_hand_value_le: "low_sum hand \<le> 21 \<Longrightarrow> get_hand_value hand \<le> 21"
  by (simp add: get_hand_value_cases)

text \<open>
  Two cards of the deck are never bust.
\<close>

lemma two_cards_value:
  assumes "c1 \<in> set unshuffled_deck" "c2 \<in> set unshuffled_deck"
  shows "get_hand_value [c1, c2] \<le> 21"
proof -
  have "low_sum [c1, c2] \<le> 20"
    using in_deck_points [OF assms(1)] in_deck_points [OF assms(2)]
    by (simp add: low_sum_def)
  then show ?thesis by (simp add: get_hand_value_le)
qed

lemma pop_Inr: "pop xs = Inr (c, ys) \<Longrightarrow> xs = ys @ [c]"
  by (auto simp: pop_def split: if_splits)

lemma deal_Inr:
  "deal deck = Inr (ph, dh, deck1) \<Longrightarrow>
     \<exists>c1 c2 c3 c4. ph = [c1, c2] \<and> dh = [c3, c4] \<and> deck = deck1 @ [c4, c3, c2, c1]"
  by (auto simp: deal_def split: sum.splits dest!: pop_Inr)

lemma dealt_hand_value:
  assumes "set deck \<subseteq> set unshuffled_deck" "deal deck = Inr (ph, dh, deck1)"
  shows "get_hand_value ph \<le> 21"
proof -
  from deal_Inr [OF assms(2)] obtain c1 c2 c3 c4
    where "ph = [c1, c2]" "deck = deck1 @ [c4, c3, c2, c1]" by blast
  with assms(1) show ?thesis by (simp add: two_cards_value)
qed

lemma dealer_turn_bust:
  "21 < get_hand_value player \<Longrightarrow> dealer_turn player dealer deck = Inr (dealer, deck)"
  by (simp add: dealer_turn_def)

text \<open>
  Claim C5. In every round in which the player surrenders, the bet that comes back from the
  player's turn is the original bet, the bankroll goes down by exactly that bet halved and
  rounded down, whatever its parity, the losses go up by 1 and the other counters stay, and
  the dealer's hand and the deck are those that the player's turn left: the dealer phase and
  the resolution are not run.
\<close>

theorem surrender_round:
  assumes "deal deck = Inr (player_hand, dealer_hand, deck1)"
    and "player_turn player_hand dealer_hand deck1 bet money inputs =
           Inr (player', deck2, final_bet, True, inputs')"
  shows "final_bet = bet
    \<and> play_round money stats bet deck inputs =
        Inr (money - bet div 2, stats\<lparr>losses := losses stats + 1\<rparr>,
             player', dealer_hand, deck2, inputs')"
proof -
  from player_turn_bet [OF assms(2)] have b: "final_bet = bet" by simp
  then show ?thesis by (simp add: play_round_def assms)
qed

theorem surrender_round_witness:
  "deal [(Num 7, CLUBS), (Num 6, DIAMONDS), (Num 10, SPADES), (Num 9, HEARTS), (Num 9, CLUBS)]
     = Inr ([(Num 9, CLUBS), (Num 9, HEARTS)], [(Num 10, SPADES), (Num 6, DIAMONDS)],
            [(Num 7, CLUBS)])
   \<and> player_turn [(Num 9, CLUBS), (Num 9, HEARTS)] [(Num 10, SPADES), (Num 6, DIAMONDS)]
        [(Num 7, CLUBS)] 21 100 [''SU'']
      = Inr ([(Num 9, CLUBS), (Num 9, HEARTS)], [(Num 7, CLUBS)], 21, True, [])
   \<and> play_round 100 \<lparr>wins = 0, losses = 0, pushes = 0\<rparr> 21
        [(Num 7, CLUBS), (Num 6, DIAMONDS), (Num 10, SPADES), (Num 9, HEARTS), (Num 9, CLUBS)]
        [''SU'']
      = Inr (90, \<lparr>wins = 0, losses = 1, pushes = 0\<rparr>,
             [(Num 9, CLUBS), (Num 9, HEARTS)], [(Num 10, SPADES), (Num 6, DIAMONDS)],
             [(Num 7, CLUBS)], [])"
proof -
  have d: "deal [(Num 7, CLUBS), (Num 6, DIAMONDS), (Num 10, SPADES), (Num 9, HEARTS),
                 (Num 9, CLUBS)]
     = Inr ([(Num 9, CLUBS), (Num 9, HEARTS)], [(Num 10, SPADES), (Num 6, DIAMONDS)],
            [(Num 7, CLUBS)])"
    by (simp add: deal_def pop_def)
  have t: "player_turn [(Num 9, CLUBS), (Num 9, HEARTS)] [(Num 10, SPADES), (Num 6, DIAMONDS)]
        [(Num 7, CLUBS)] 21 100 [''SU'']
      = Inr ([(Num 9, CLUBS), (Num 9, HEARTS)], [(Num 7, CLUBS)], 21, True, [])"
    by (simp add: player_turn_def)
  from surrender_round [OF d t, of "\<lparr>wins = 0, losses = 0, pushes = 0\<rparr>"] d t
  show ?thesis by simp
qed

text \<open>
  Claim C8. In every round, played with cards of the deck that \<^verbatim>\<open>get_deck\<close> builds,
  in which the player's final hand is worth more than 21: the player has not surrendered,
  the dealer phase draws no card and leaves the dealer's hand as dealt and the deck as the
  player left it, and the resolution still runs and reports a loss, the bankroll less the
  final bet and the losses plus 1.
\<close>

theorem player_bust_round:
  assumes "set deck \<subseteq> set unshuffled_deck"
    and "deal deck = Inr (player_hand, dealer_hand, deck1)"
    and "player_turn player_hand dealer_hand deck1 bet money inputs =
           Inr (player', deck2, final_bet, sur, inputs')"
    and "21 < get_hand_value player'"
  shows "\<not> sur
    \<and> dealer_turn player' dealer_hand deck2 = Inr (dealer_hand, deck2)
    \<and> resolve_game player' dealer_hand final_bet money stats =
        (money - final_bet, stats\<lparr>losses := losses stats + 1\<rparr>)
    \<and> play_round money stats bet deck inputs =
        Inr (money - final_bet, stats\<lparr>losses := losses stats + 1\<rparr>,
             player', dealer_hand, deck2, inputs')"
proof -
  have v: "get_hand_value player_hand \<le> 21"
    using assms(1,2) by (rule dealt_hand_value)
  have ns: "\<not> sur"
  proof
    assume sur
    with assms(3) have "get_hand_value player' \<le> 21"
      using v by (auto simp: player_turn_def Let_def dest: player_loop_surrender_value)
    with assms(4) show False by simp
  qed
  have d: "dealer_turn player' dealer_hand deck2 = Inr (dealer_hand, deck2)"
    using assms(4) by (rule dealer_turn_bust)
  have r: "resolve_game player' dealer_hand final_bet money stats =
        (money - final_bet, stats\<lparr>losses := losses stats + 1\<rparr>)"
    using assms(4) by (rule resolve_game_bust)
  have "play_round money stats bet deck inputs =
        Inr (money - final_bet, stats\<lparr>losses := losses stats + 1\<rparr>,
             player', dealer_hand, deck2, inputs')"
    by (simp add: play_round_def assms(2,3) ns d r)
  with ns d r show ?thesis by simp
qed

theorem player_bust_round_witness:
  "set [(Num 3, CLUBS), (Num 5, HEARTS), (Num 6, DIAMONDS), (Num 10, SPADES), (Num 9, HEARTS),
        (Num 9, CLUBS)] \<subseteq> set unshuffled_deck
   \<and> deal [(Num 3, CLUBS), (Num 5, HEARTS), (Num 6, DIAMONDS), (Num 10, SPADES), (Num 9, HEARTS),
        (Num 9, CLUBS)]
     = Inr ([(Num 9, CLUBS), (Num 9, HEARTS)], [(Num 10, SPADES), (Num 6, DIAMONDS)],
            [(Num 3, CLUBS), (Num 5, HEARTS)])
   \<and> player_turn [(Num 9, CLUBS), (Num 9, HEARTS)] [(Num 10, SPADES), (Num 6, DIAMONDS)]
        [(Num 3, CLUBS), (Num 5, HEARTS)] 10 100 [''H'']
      = Inr ([(Num 9, CLUBS), (Num 9, HEARTS), (Num 5, HEARTS)], [(Num 3, CLUBS)], 10, False, [])
   \<and> 21 < get_hand_value [(Num 9, CLUBS), (Num 9, HEARTS), (Num 5, HEARTS)]
   \<and> get_hand_value [(Num 10, SPADES), (Num 6, DIAMONDS)] < 17
   \<and> play_round 100 \<lparr>wins = 0, losses = 0, pushes = 0\<rparr> 10
        [(Num 3, CLUBS), (Num 5, HEARTS), (Num 6, DIAMONDS), (Num 10, SPADES), (Num 9, HEARTS),
         (Num 9, CLUBS)] [''H'']
      = Inr (90, \<lparr>wins = 0, losses = 1, pushes = 0\<rparr>,
             [(Num 9, CLUBS), (Num 9, HEARTS), (Num 5, HEARTS)],
             [(Num 10, SPADES), (Num 6, DIAMONDS)], [(Num 3, CLUBS)], [])"
proof -
  let ?deck = "[(Num 3, CLUBS), (Num 5, HEARTS), (Num 6, DIAMONDS), (Num 10, SPADES),
                (Num 9, HEARTS), (Num 9, CLUBS)]"
  have s: "set ?deck \<subseteq> set unshuffled_deck"
    by (simp add: unshuffled_deck_def suit_cards_def)
  have d: "deal ?deck
     = Inr ([(Num 9, CLUBS), (Num 9, HEARTS)], [(Num 10, SPADES), (Num 6, DIAMONDS)],
            [(Num 3, CLUBS), (Num 5, HEARTS)])"
    by (simp add: deal_def pop_def)
  have t: "player_turn [(Num 9, CLUBS), (Num 9, HEARTS)] [(Num 10, SPADES), (Num 6, DIAMONDS)]
        [(Num 3, CLUBS), (Num 5, HEARTS)] 10 100 [''H'']
      = Inr ([(Num 9, CLUBS), (Num 9, HEARTS), (Num 5, HEARTS)], [(Num 3, CLUBS)], 10, False, [])"
    by (simp add: player_turn_def pop_def get_hand_value_def)
  have b: "21 < get_hand_value [(Num 9, CLUBS), (Num 9, HEARTS), (Num 5, HEARTS)]"
    by (simp add: get_hand_value_def)
  have l: "get_hand_value [(Num 10, SPADES), (Num 6, DIAMONDS)] < 17"
    by (simp add: get_hand_value_def)
  from player_bust_round [OF s d t b, of "\<lparr>wins = 0, losses = 0, pushes = 0\<rparr>"] s d t b l
  show ?thesis by simp
qed

subsection \<open>The bankroll never goes below zero\<close>

lemma play_round_money:
  assumes "1 \<le> bet" "bet \<le> money"
    and "play_round money stats bet deck inputs = Inr (money', stats', p, d, dk, inp)"
  shows "0 \<le> money'"
proof -
  from assms(3) obtain player_hand dealer_hand deck1 where
    dl: "deal deck = Inr (player_hand, dealer_hand, deck1)"
    by (auto simp: play_round_def split: sum.splits)
  from assms(3) dl obtain player' deck2 final_bet sur inputs' where
    pt: "player_turn player_hand dealer_hand deck1 bet money inputs =
           Inr (player', deck2, final_bet, sur, inputs')"
    by (auto simp: play_round_def split: sum.splits)
  from player_turn_bet [OF pt] assms(1,2)
  have fb: "0 \<le> final_bet" "final_bet \<le> money" "sur \<longrightarrow> final_bet = bet" by auto
  show ?thesis
  proof (cases sur)
    case True
    with assms(3) dl pt fb have "money' = money - bet div 2"
      by (simp add: play_round_def)
    with assms(1,2) show ?thesis by simp
  next
    case False
    with assms(3) dl pt have "money' = fst (resolve_game player' d final_bet money stats)"
      by (auto simp: play_round_def split: sum.splits prod.splits)
    with resolve_game_money [OF fb(1), of money player' d stats] fb(2)
    show ?thesis by simp
  qed
qed

text \<open>
  \<^verbatim>\<open>get_bet\<close> returns only a bet between 1 and the bankroll, so a pass of the loop of
  \<^verbatim>\<open>game\<close> never leaves a negative bankroll.
\<close>

lemma get_bet_range:
  "get_bet max_bet inputs = Inr (bet, inputs') \<Longrightarrow> 1 \<le> bet \<and> bet \<le> max_bet"
  by (induction max_bet inputs rule: get_bet.induct) (auto simp: Let_def split: if_splits)

lemma game_round_money:
  assumes "game_round money stats deck inputs = Inr (money', stats', p, d, dk, inp)"
  shows "0 \<le> money'"
proof -
  from assms obtain bet inputs' where
    b: "get_bet money inputs = Inr (bet, inputs')" and
    r: "play_round money stats bet deck inputs' = Inr (money', stats', p, d, dk, inp)"
    by (auto simp: game_round_def split: if_splits sum.splits)
  from get_bet_range [OF b] have "1 \<le> bet" "bet \<le> money" by simp_all
  then show ?thesis using r by (rule play_round_money)
qed

text \<open>
  Claim C7. The bankroll is not negative after a round: for every bankroll and every round
  whose bet is at least 1 and at most the bankroll when it is placed (a double-down being
  performed only with a bankroll of at least twice the bet), the bankroll that the round
  returns, through the surrender penalty or through the resolution with the final bet,
  doubled or not, is at least 0.
\<close>

theorem play_round_bankroll_nonneg:
  "1 \<le> bet \<Longrightarrow> bet \<le> money \<Longrightarrow>
   play_round money stats bet deck inputs = Inr (money', stats', p, d, dk, inp) \<Longrightarrow>
   0 \<le> money'"
  by (rule play_round_money)

theorem play_round_bankroll_nonneg_witness:
  "(1::int) \<le> 10 \<and> (10::int) \<le> 20
   \<and> play_round 20 \<lparr>wins = 0, losses = 0, pushes = 0\<rparr> 10
        [(Num 5, HEARTS), (Num 6, DIAMONDS), (Num 10, SPADES), (Num 9, HEARTS), (Num 9, CLUBS)]
        [''D'']
      = Inr (0, \<lparr>wins = 0, losses = 1, pushes = 0\<rparr>,
             [(Num 9, CLUBS), (Num 9, HEARTS), (Num 5, HEARTS)],
             [(Num 10, SPADES), (Num 6, DIAMONDS)], [], [])
   \<and> (0::int) \<le> 0"
proof -
  have r: "play_round 20 \<lparr>wins = 0, losses = 0, pushes = 0\<rparr> 10
        [(Num 5, HEARTS), (Num 6, DIAMONDS), (Num 10, SPADES), (Num 9, HEARTS), (Num 9, CLUBS)]
        [''D'']
      = Inr (0, \<lparr>wins = 0, losses = 1, pushes = 0\<rparr>,
             [(Num 9, CLUBS), (Num 9, HEARTS), (Num 5, HEARTS)],
             [(Num 10, SPADES), (Num 6, DIAMONDS)], [], [])"
    by (simp add: play_round_def deal_def pop_def player_turn_def dealer_turn_def
          resolve_game_def get_hand_value_def)
  have b1: "(1::int) \<le> 10" and b2: "(10::int) \<le> 20" by simp_all
  from play_round_bankroll_nonneg [OF b1 b2 r] r show ?thesis by simp
qed

section \<open>Properties of loading the saved state\<close>

text \<open>
  Claim C6, as stated: every read or parse failure of the save record gives the defaults, a
  bankroll of 5000 and three counters at 0, and does not fail the program. It does not hold
  for a file whose content is not JSON: the exception of the parser leaves
  \<^verbatim>\<open>load_game\<close>.
\<close>

theorem load_game_unparseable:
  "load_game (Some (Inl JSONDecodeError))
     \<noteq> Inr (JInt 5000, \<lparr>wins = JInt 0, losses = JInt 0, pushes = JInt 0\<rparr>)"
  by (simp add: load_game_def)

text \<open>
  Claim C6, amended. A missing file gives the defaults, a bankroll of 5000 and three
  counters at 0. A file that parses to an object gives, for each of the four fields, the
  stored value, or the default of the field (5000 for the bankroll, 0 for a counter) when
  the field is missing; an object with none of the fields gives all the defaults. A failure
  to read or to parse the file is not handled: the load fails with that exception.
\<close>

theorem load_game_fallbacks:
  "load_game None = Inr (JInt 5000, \<lparr>wins = JInt 0, losses = JInt 0, pushes = JInt 0\<rparr>)
   \<and> load_game (Some (Inr (JObj data))) =
       Inr (case map_of data ''money'' of None \<Rightarrow> JInt 5000 | Some v \<Rightarrow> v,
            \<lparr>wins = (case map_of data ''wins'' of None \<Rightarrow> JInt 0 | Some v \<Rightarrow> v),
             losses = (case map_of data ''losses'' of None \<Rightarrow> JInt 0 | Some v \<Rightarrow> v),
             pushes = (case map_of data ''pushes'' of None \<Rightarrow> JInt 0 | Some v \<Rightarrow> v)\<rparr>)
   \<and> load_game (Some (Inr (JObj []))) =
       Inr (JInt 5000, \<lparr>wins = JInt 0, losses = JInt 0, pushes = JInt 0\<rparr>)
   \<and> load_game (Some (Inl e)) = Inl e"
  by (simp add: load_game_def dict_get_def)

theorem load_game_fallbacks_witness:
  "load_game (Some (Inr (JObj [(''wins'', JInt 3), (''money'', JInt 777)]))) =
     Inr (JInt 777, \<lparr>wins = JInt 3, losses = JInt 0, pushes = JInt 0\<rparr>)
   \<and> load_game (Some (Inl JSONDecodeError)) = Inl JSONDecodeError"
  using load_game_fallbacks [of "[(''wins'', JInt 3), (''money'', JInt 777)]" JSONDecodeError]
  by simp

end
